theory Spec2Isabelle
  imports Complex_Main
begin

section \<open>firstNonNullValue (kbn-securitysolution-grouping, helpers.ts)\<close>

text \<open>
  \<^verbatim>\<open>type ECSField<T> = T | null | undefined | Array<T | null>\<close>: a value coming from
  Elasticsearch is \<^verbatim>\<open>null\<close>, \<^verbatim>\<open>undefined\<close>, a plain value, or an array whose elements are
  values or \<^verbatim>\<open>null\<close>. An array element is an \<open>option\<close>: \<open>None\<close> is the element \<^verbatim>\<open>null\<close>.
\<close>

datatype 't ECSField = Null | Undefined | Plain 't | Collection "'t option list"

text \<open>
  The result type \<^verbatim>\<open>T | undefined\<close> is \<open>'t option\<close>, \<open>None\<close> standing for \<^verbatim>\<open>undefined\<close>.
  The \<^verbatim>\<open>for (const value of valueOrCollection)\<close> loop returns the first element with
  \<^verbatim>\<open>value !== null\<close>; when it runs off the end of the array the function body ends
  without a \<^verbatim>\<open>return\<close>, which is \<^verbatim>\<open>undefined\<close>.
\<close>

fun firstNonNullValue_loop :: "'t option list \<Rightarrow> 't option" where
  "firstNonNullValue_loop [] = None"
| "firstNonNullValue_loop (v # rest) =
     (if v \<noteq> None then v else firstNonNullValue_loop rest)"

fun firstNonNullValue :: "'t ECSField \<Rightarrow> 't option" where
  "firstNonNullValue Null = None"
| "firstNonNullValue (Collection valueOrCollection) = firstNonNullValue_loop valueOrCollection"
| "firstNonNullValue Undefined = None"
| "firstNonNullValue (Plain valueOrCollection) = Some valueOrCollection"

section \<open>getListHandler (fleet, routes/data_streams/handlers.ts)\<close>

subsection \<open>The answers of Elasticsearch and the response\<close>

text \<open>
  An entry of \<^verbatim>\<open>ESDataStreamInfoResponse.data_streams\<close>, with the fields the handler reads:
  the name, the \<^verbatim>\<open>index_name\<close> of each backing index, and \<^verbatim>\<open>_meta?.package?.name\<close>, which
  is \<open>None\<close> when any link of that chain is missing.
\<close>

record ESDataStreamInfo =
  name :: string
  indices :: "string list"
  meta_package_name :: "string option"

text \<open>An entry of \<^verbatim>\<open>ESDataStreamStatsResponse.data_streams\<close>; the numbers are whole.\<close>

record ESDataStreamStats =
  data_stream :: string
  store_size_bytes :: int
  maximum_timestamp :: int

text \<open>
  The \<^verbatim>\<open>DataStream\<close> object built for each data stream (\<^verbatim>\<open>dataStreamResponse\<close>, lines 121 to
  131). \<^verbatim>\<open>last_activity_ms\<close> and \<^verbatim>\<open>size_in_bytes\<close> are copied from the merged object and are
  \<^verbatim>\<open>undefined\<close>, here \<open>None\<close>, when the data stream has no entry in the stats answer. A
  dashboard is an \<^verbatim>\<open>{id, title}\<close> pair.
\<close>

record DataStream =
  index :: string
  dataset :: string
  namespace :: string
  type :: string
  package :: string
  package_version :: string
  last_activity_ms :: "int option"
  size_in_bytes :: "int option"
  dashboards :: "(string \<times> string) list"

record GetDataStreamsResponse =
  data_streams :: "DataStream list"

text \<open>
  The handler answers either with \<^verbatim>\<open>response.ok({ body })\<close> or, from the \<^verbatim>\<open>catch\<close> block,
  with whatever \<^verbatim>\<open>defaultIngestErrorHandler({ error, response })\<close> builds. That function
  lives in \<^verbatim>\<open>../../errors\<close>, outside the sources covered here, and is a parameter of the
  model; its answer is kept apart from the handler's own \<^verbatim>\<open>response.ok\<close>.
\<close>

datatype 'h handler_response = response_ok GetDataStreamsResponse | ingest_error 'h

text \<open>
  What the \<^verbatim>\<open>try\<close> block can throw: a \<^verbatim>\<open>TypeError\<close> of the handler's own code, or the error
  of a rejected request to Elasticsearch or to the saved objects client.
\<close>

datatype 'e thrown = type_error | client_error 'e

subsection \<open>keyBy, merge and keys\<close>

text \<open>
  A JavaScript object with string keys is a list of properties in insertion order (the
  names of data streams match \<^verbatim>\<open>logs-*-*\<close>, \<^verbatim>\<open>metrics-*-*\<close> or \<^verbatim>\<open>traces-*-*\<close>, so no key is an
  array index). \<^verbatim>\<open>obj[key] = v\<close> replaces the value of an existing key in place and appends
  a new key.
\<close>

fun object_set :: "string \<Rightarrow> 'v \<Rightarrow> (string \<times> 'v) list \<Rightarrow> (string \<times> 'v) list" where
  "object_set key v [] = [(key, v)]"
| "object_set key v ((k, w) # props) =
     (if k = key then (k, v) # props else (k, w) # object_set key v props)"

text \<open>lodash \<^verbatim>\<open>keyBy\<close>: each element is stored under its key, a later one replacing an earlier.\<close>

definition keyBy :: "('a \<Rightarrow> string) \<Rightarrow> 'a list \<Rightarrow> (string \<times> 'a) list" where
  "keyBy iteratee collection = foldl (\<lambda>obj x. object_set (iteratee x) x obj) [] collection"

text \<open>
  lodash \<^verbatim>\<open>merge(object, source)\<close> at line 77: every key of the stats object is merged into
  the info object. The two kinds of entries share no field, so the merged entry of a name
  is the info entry, when there is one, together with the stats entry, when there is one.
\<close>

definition merge ::
  "(string \<times> ESDataStreamInfo) list \<Rightarrow> (string \<times> ESDataStreamStats) list
     \<Rightarrow> (string \<times> ESDataStreamInfo option \<times> ESDataStreamStats option) list" where
  "merge object source =
     foldl (\<lambda>obj (key, stats).
              object_set key
                (case map_of obj key of
                   Some (info, _) \<Rightarrow> (info, Some stats)
                 | None \<Rightarrow> (None, Some stats))
                obj)
       (map (\<lambda>(key, info). (key, (Some info, None))) object) source"

definition keys :: "(string \<times> 'v) list \<Rightarrow> string list" where
  "keys obj = map fst obj"

subsection \<open>One data stream\<close>

text \<open>\<^verbatim>\<open>key || ''\<close> on a string that may be \<^verbatim>\<open>undefined\<close>.\<close>

definition or_empty :: "string option \<Rightarrow> string" where
  "or_empty key = (case key of Some k \<Rightarrow> k | None \<Rightarrow> [])"

text \<open>A JavaScript string is truthy exactly when it is not empty.\<close>

definition truthy :: "string \<Rightarrow> bool" where
  "truthy s = (s \<noteq> [])"

text \<open>
  The \<^verbatim>\<open>async\<close> callback of \<^verbatim>\<open>dataStreamNames.map\<close> (lines 119 to 222), as the outcome of its
  promise. \<open>search\<close> is the \<^verbatim>\<open>callCluster('search', ...)\<close> request on the backing indices: it
  fails, or yields the key of the first bucket of the dataset, namespace and type
  aggregations, \<open>None\<close> where there is no bucket. \<^verbatim>\<open>dataStream.indices.map\<close> throws a
  \<^verbatim>\<open>TypeError\<close> when the merged object has no info part. \<open>installed\<close> stands for the lookups
  in the package saved objects (lines 80 to 116 and 193 to 213): for the name of a package
  installed through EPM, its version and dashboards.
\<close>

definition dataStreamPromise ::
  "(string list \<Rightarrow> 'e + string option \<times> string option \<times> string option)
     \<Rightarrow> (string \<Rightarrow> (string \<times> (string \<times> string) list) option)
     \<Rightarrow> (string \<times> ESDataStreamInfo option \<times> ESDataStreamStats option) list
     \<Rightarrow> string \<Rightarrow> 'e thrown + DataStream" where
  "dataStreamPromise search installed dataStreams dataStreamName =
     (case map_of dataStreams dataStreamName of
        None \<Rightarrow> Inl type_error
      | Some (info, stats) \<Rightarrow>
          (let dataStreamResponse =
                 \<lparr>index = dataStreamName, dataset = [], namespace = [], type = [],
                  package = or_empty (case info of Some i \<Rightarrow> meta_package_name i | None \<Rightarrow> None),
                  package_version = [],
                  last_activity_ms = map_option maximum_timestamp stats,
                  size_in_bytes = map_option store_size_bytes stats,
                  dashboards = []\<rparr>
           in case info of
                None \<Rightarrow> Inl type_error
              | Some i \<Rightarrow>
                  (case search (indices i) of
                     Inl e \<Rightarrow> Inl (client_error e)
                   | Inr (dataset_key, namespace_key, type_key) \<Rightarrow>
                       (let dataStreamResponse = dataStreamResponse
                              \<lparr>dataset := or_empty dataset_key,
                               namespace := or_empty namespace_key,
                               type := or_empty type_key\<rparr>;
                            pkgName = package dataStreamResponse;
                            pkgSavedObject = (if truthy pkgName then installed pkgName else None)
                        in case pkgSavedObject of
                             Some (version, packageDashboards) \<Rightarrow>
                               Inr (dataStreamResponse
                                      \<lparr>package := pkgName, package_version := version,
                                       dashboards := packageDashboards\<rparr>)
                           | None \<Rightarrow> Inr dataStreamResponse))))"

text \<open>
  \<^verbatim>\<open>await Promise.all(...)\<close>: the values in the order of the promises, or the error of a
  rejected one (of the first in the list, where several are rejected).
\<close>

fun promise_all :: "('e + 'a) list \<Rightarrow> 'e + 'a list" where
  "promise_all [] = Inr []"
| "promise_all (Inl e # ps) = Inl e"
| "promise_all (Inr v # ps) = (case promise_all ps of Inl e \<Rightarrow> Inl e | Inr vs \<Rightarrow> Inr (v # vs))"

subsection \<open>Filtering and sorting\<close>

text \<open>
  The callback of \<^verbatim>\<open>.filter\<close>:
  \<^verbatim>\<open>({ dataset, namespace, type }) => dataset && namespace && type\<close>.
\<close>

definition has_dataset_namespace_type :: "DataStream \<Rightarrow> bool" where
  "has_dataset_namespace_type d = (truthy (dataset d) \<and> truthy (namespace d) \<and> truthy (type d))"

text \<open>
  The comparator of \<^verbatim>\<open>.sort\<close>: \<^verbatim>\<open>(a, b) => b.last_activity_ms - a.last_activity_ms\<close>. The
  difference is \<^verbatim>\<open>NaN\<close>, here \<open>None\<close>, as soon as one side is \<^verbatim>\<open>undefined\<close>.
\<close>

definition by_last_activity :: "DataStream \<Rightarrow> DataStream \<Rightarrow> int option" where
  "by_last_activity a b =
     (case (last_activity_ms b, last_activity_ms a) of
        (Some tb, Some ta) \<Rightarrow> Some (tb - ta)
      | _ \<Rightarrow> None)"

text \<open>
  \<^verbatim>\<open>Array.prototype.sort(compareFn)\<close> is a built-in of the language. It reads a \<^verbatim>\<open>NaN\<close> from
  the comparator as 0, puts \<open>a\<close> before \<open>b\<close> when the comparator is negative and keeps
  their order when it is zero. It is modelled by a stable insertion sort driven by the
  comparator.
\<close>

definition sort_compare :: "('a \<Rightarrow> 'a \<Rightarrow> int option) \<Rightarrow> 'a \<Rightarrow> 'a \<Rightarrow> int" where
  "sort_compare compareFn a b = (case compareFn a b of Some v \<Rightarrow> v | None \<Rightarrow> 0)"

fun sort_insert :: "('a \<Rightarrow> 'a \<Rightarrow> int option) \<Rightarrow> 'a \<Rightarrow> 'a list \<Rightarrow> 'a list" where
  "sort_insert compareFn a [] = [a]"
| "sort_insert compareFn a (b # bs) =
     (if sort_compare compareFn a b \<le> 0 then a # b # bs else b # sort_insert compareFn a bs)"

definition array_sort :: "('a \<Rightarrow> 'a \<Rightarrow> int option) \<Rightarrow> 'a list \<Rightarrow> 'a list" where
  "array_sort compareFn xs = foldr (sort_insert compareFn) xs []"

text \<open>
  A list of data streams is in descending order of \<^verbatim>\<open>last_activity_ms\<close> when every entry has
  a timestamp and no entry has a smaller one than a later entry.
\<close>

definition descending :: "DataStream list \<Rightarrow> bool" where
  "descending ds =
     sorted_wrt (\<lambda>a b. case (last_activity_ms a, last_activity_ms b) of
                          (Some ta, Some tb) \<Rightarrow> tb \<le> ta
                        | _ \<Rightarrow> False) ds"

subsection \<open>The handler\<close>

text \<open>
  \<open>fetched\<close> is the outcome of the requests awaited first (lines 58 to 72, and the
  \<^verbatim>\<open>bulkGet\<close> of the dashboards at line 97): an error, which lands in \<^verbatim>\<open>catch\<close>, or the two
  lists of data streams that Elasticsearch answered with, the info list and the stats list.
  The two lists come from two separate requests and need not name the same data streams.
\<close>

definition getListHandler ::
  "('e thrown \<Rightarrow> 'h)
     \<Rightarrow> (string list \<Rightarrow> 'e + string option \<times> string option \<times> string option)
     \<Rightarrow> (string \<Rightarrow> (string \<times> (string \<times> string) list) option)
     \<Rightarrow> 'e + ESDataStreamInfo list \<times> ESDataStreamStats list
     \<Rightarrow> 'h handler_response" where
  "getListHandler defaultIngestErrorHandler search installed fetched =
     (case fetched of
        Inl error \<Rightarrow> ingest_error (defaultIngestErrorHandler (client_error error))
      | Inr (dataStreamsInfo, dataStreamStats) \<Rightarrow>
          (let dataStreamsInfoByName = keyBy name dataStreamsInfo;
               dataStreamsStatsByName = keyBy data_stream dataStreamStats;
               dataStreams = merge dataStreamsInfoByName dataStreamsStatsByName;
               dataStreamNames = keys dataStreams;
               dataStreamPromises =
                 map (dataStreamPromise search installed dataStreams) dataStreamNames
           in case promise_all dataStreamPromises of
                Inl error \<Rightarrow> ingest_error (defaultIngestErrorHandler error)
              | Inr dataStreamResponses \<Rightarrow>
                  response_ok \<lparr>data_streams =
                    array_sort by_last_activity
                      (filter has_dataset_namespace_type dataStreamResponses)\<rparr>))"

section \<open>Batch processing route (bfetch server plugin)\<close>

subsection \<open>Response items and the subject that carries them\<close>

text \<open>
  A \<^verbatim>\<open>BatchResponseItem\<close> is the object literal \<^verbatim>\<open>{ id, result }\<close> or \<^verbatim>\<open>{ id, error }\<close> handed
  to \<^verbatim>\<open>subject.next\<close>; \<^verbatim>\<open>id\<close> is the index \<^verbatim>\<open>forEach\<close> passes to its callback.
\<close>

datatype ('r, 'e) BatchResponseItem =
    is_result: ResultItem (item_id: nat) (item_result: 'r)
  | is_error: ErrorItem (item_id: nat) (item_error: 'e)

text \<open>
  The rxjs \<^verbatim>\<open>Subject\<close>, as far as the route uses it: the values it has pushed, in order,
  and whether it has been completed. Once stopped, a subject ignores \<^verbatim>\<open>next\<close>.
\<close>

record 'a Subject =
  emitted :: "'a list"
  isStopped :: bool

definition new_Subject :: "'a Subject" where
  "new_Subject = \<lparr>emitted = [], isStopped = False\<rparr>"

definition subject_next :: "'a \<Rightarrow> 'a Subject \<Rightarrow> 'a Subject" where
  "subject_next v s = (if isStopped s then s else s\<lparr>emitted := emitted s @ [v]\<rparr>)"

definition subject_complete :: "'a Subject \<Rightarrow> 'a Subject" where
  "subject_complete s = s\<lparr>isStopped := True\<rparr>"

subsection \<open>getResponseStream\<close>

text \<open>
  A promise settles at most once: it is fulfilled with a result or rejected with an error.
\<close>

datatype ('r, 'x) settled = fulfilled 'r | rejected 'x

text \<open>
  The call \<^verbatim>\<open>handlerInstance.onBatchItem(batchItem)\<close> either throws before it returns, or
  returns a value that \<^verbatim>\<open>await\<close> waits for: a promise, with the outcome it will settle with
  (a value that is not a promise counts as a promise fulfilled with it). A promise that
  never settles is one whose item never occurs among the events below.
\<close>

datatype ('r, 'x) called = throws 'x | promise "('r, 'x) settled"

text \<open>
  The state shared by the callbacks of one call of \<^verbatim>\<open>getResponseStream\<close>: the subject and
  the countdown \<^verbatim>\<open>cnt\<close>. \<^verbatim>\<open>cnt\<close> is a JavaScript number that is only ever decremented from
  \<^verbatim>\<open>batch.length\<close>, an \<open>int\<close> here.
\<close>

record ('r, 'e) response_stream =
  subject :: "('r, 'e) BatchResponseItem Subject"
  cnt :: int

text \<open>
  What the callback of item \<open>i\<close> does once the awaited call has an outcome (lines 175 to
  184): \<^verbatim>\<open>try\<close> emits \<^verbatim>\<open>{ id, result }\<close>, \<^verbatim>\<open>catch\<close> emits \<^verbatim>\<open>{ id, error }\<close> with
  \<^verbatim>\<open>error = normalizeError(err)\<close>, and \<^verbatim>\<open>finally\<close> decrements \<^verbatim>\<open>cnt\<close> and completes the
  subject when \<^verbatim>\<open>!cnt\<close>. \<^verbatim>\<open>normalizeError\<close> is imported from \<^verbatim>\<open>../common\<close>, outside the
  sources covered here; it is a parameter.
\<close>

fun batch_item_settled ::
  "('x \<Rightarrow> 'e) \<Rightarrow> ('r, 'e) response_stream \<Rightarrow> nat \<times> ('r, 'x) settled
     \<Rightarrow> ('r, 'e) response_stream" where
  "batch_item_settled normalizeError s (i, outcome) =
     (let subject1 =
            (case outcome of
               fulfilled result \<Rightarrow> subject_next (ResultItem i result) (subject s)
             | rejected err \<Rightarrow> subject_next (ErrorItem i (normalizeError err)) (subject s));
          cnt1 = cnt s - 1
      in \<lparr>subject = (if cnt1 = 0 then subject_complete subject1 else subject1), cnt = cnt1\<rparr>)"

text \<open>
  The part of the callback of item \<open>i\<close> that runs inside \<^verbatim>\<open>forEach\<close>. The call of
  \<^verbatim>\<open>onBatchItem\<close> stands inside \<^verbatim>\<open>try\<close>: when it throws, \<^verbatim>\<open>catch\<close> and \<^verbatim>\<open>finally\<close> run at
  once, as for a rejection; when it returns, the callback stops at \<^verbatim>\<open>await\<close> and leaves the
  state as it is.
\<close>

fun batch_item_called ::
  "('x \<Rightarrow> 'e) \<Rightarrow> ('d \<Rightarrow> ('r, 'x) called) \<Rightarrow> ('r, 'e) response_stream \<Rightarrow> nat \<times> 'd
     \<Rightarrow> ('r, 'e) response_stream" where
  "batch_item_called normalizeError onBatchItem s (i, batchItem) =
     (case onBatchItem batchItem of
        throws err \<Rightarrow> batch_item_settled normalizeError s (i, rejected err)
      | promise outcome \<Rightarrow> s)"

text \<open>
  \<^verbatim>\<open>getResponseStream\<close> up to \<^verbatim>\<open>return subject\<close> (lines 171 to 187): it creates the subject,
  sets \<^verbatim>\<open>cnt = batch.length\<close> and runs \<^verbatim>\<open>forEach\<close> over the items with their indices. The
  result is the state in which the subject is handed to the caller.
\<close>

definition getResponseStream ::
  "('x \<Rightarrow> 'e) \<Rightarrow> ('d \<Rightarrow> ('r, 'x) called) \<Rightarrow> 'd list \<Rightarrow> ('r, 'e) response_stream" where
  "getResponseStream normalizeError onBatchItem batch =
     foldl (batch_item_called normalizeError onBatchItem)
       \<lparr>subject = new_Subject, cnt = int (length batch)\<rparr> (enumerate 0 batch)"

text \<open>
  After the return the event loop resumes the waiting callbacks one at a time, in the
  order in which their promises settle. A run is the list of these events, each the index
  of an item with the outcome of its promise.
\<close>

definition items_settled ::
  "('x \<Rightarrow> 'e) \<Rightarrow> ('r, 'e) response_stream \<Rightarrow> (nat \<times> ('r, 'x) settled) list
     \<Rightarrow> ('r, 'e) response_stream" where
  "items_settled normalizeError s evs = foldl (batch_item_settled normalizeError) s evs"

text \<open>
  A \<^verbatim>\<open>Subject\<close> does not replay: an observer receives the values pushed after it
  subscribed. Nobody holds the subject before \<^verbatim>\<open>getResponseStream\<close> returns it, so an
  observer subscribes at the return at the earliest, and then receives, of all the values
  pushed up to a later state, those pushed after the return.
\<close>

definition received ::
  "('r, 'e) response_stream \<Rightarrow> ('r, 'e) response_stream \<Rightarrow> ('r, 'e) BatchResponseItem list" where
  "received returned s = drop (length (emitted (subject returned))) (emitted (subject s))"

text \<open>The response item that the callback of an item emits for an outcome.\<close>

definition respond ::
  "('x \<Rightarrow> 'e) \<Rightarrow> nat \<times> ('r, 'x) settled \<Rightarrow> ('r, 'e) BatchResponseItem" where
  "respond normalizeError ev =
     (case ev of
        (i, fulfilled result) \<Rightarrow> ResultItem i result
      | (i, rejected err) \<Rightarrow> ErrorItem i (normalizeError err))"

text \<open>
  A list of events is a completion order of a batch of \<open>n\<close> items when no item settles twice
  and every event belongs to one of the \<open>n\<close> callbacks that were started. All items have
  completed when there are \<open>n\<close> such events.
\<close>

definition completion_order :: "nat \<Rightarrow> (nat \<times> 'o) list \<Rightarrow> bool" where
  "completion_order n evs = (distinct (map fst evs) \<and> list_all (\<lambda>i. i < n) (map fst evs))"

definition all_completed :: "nat \<Rightarrow> (nat \<times> 'o) list \<Rightarrow> bool" where
  "all_completed n evs = (completion_order n evs \<and> length evs = n)"

text \<open>The call of the handler on a payload returns, and does not throw.\<close>

definition returns_promise :: "('d \<Rightarrow> ('r, 'x) called) \<Rightarrow> 'd \<Rightarrow> bool" where
  "returns_promise onBatchItem batchItem =
     (case onBatchItem batchItem of promise outcome \<Rightarrow> True | throws err \<Rightarrow> False)"


subsection \<open>Two handlers\<close>

text \<open>
  A handler that is not an \<^verbatim>\<open>async\<close> function: it throws on the payload \<^verbatim>\<open>'bad'\<close> before it
  returns anything, and returns a promise fulfilled with the payload otherwise.
\<close>

definition throws_on_bad :: "string \<Rightarrow> (string, string) called" where
  "throws_on_bad x = (if x = ''bad'' then throws ''boom'' else promise (fulfilled x))"




subsection \<open>getResponseStream on an arbitrary request body\<close>

text \<open>
  The route validates the body with \<^verbatim>\<open>schema.any()\<close>, so \<^verbatim>\<open>getResponseStream\<close> can be handed
  any JSON value at run time, whatever its TypeScript signature says.
\<close>

datatype json = JNull | JBool bool | JNumber int | JString string
  | JArray "json list" | JObject "(string \<times> json) list"

datatype js_error = TypeError

text \<open>
  \<^verbatim>\<open>({ batch }) => ...\<close> reads the property \<^verbatim>\<open>batch\<close> of the payload, which throws a
  \<^verbatim>\<open>TypeError\<close> on \<^verbatim>\<open>null\<close> and yields \<^verbatim>\<open>undefined\<close> on a value without that property;
  \<^verbatim>\<open>batch.length\<close> throws on \<^verbatim>\<open>undefined\<close> and \<^verbatim>\<open>null\<close>; \<^verbatim>\<open>batch.forEach(...)\<close> throws on
  anything that is not an array, since no other JSON value has a method \<^verbatim>\<open>forEach\<close>. Each
  of these happens before the first callback runs. The first component of the result lists
  the payloads \<^verbatim>\<open>onBatchItem\<close> has been called with when \<^verbatim>\<open>getResponseStream\<close> returns or
  throws.
\<close>

definition getResponseStream_js ::
  "('x \<Rightarrow> 'e) \<Rightarrow> (json \<Rightarrow> ('r, 'x) called) \<Rightarrow> json
     \<Rightarrow> json list \<times> (js_error + ('r, 'e) response_stream)" where
  "getResponseStream_js normalizeError onBatchItem payload =
     (case payload of
        JObject props \<Rightarrow>
          (case map_of props ''batch'' of
             Some (JArray batch) \<Rightarrow>
               (batch, Inr (getResponseStream normalizeError onBatchItem batch))
           | _ \<Rightarrow> ([], Inl TypeError))
      | _ \<Rightarrow> ([], Inl TypeError))"

text \<open>A payload is a batch payload when it is an object whose \<^verbatim>\<open>batch\<close> is an array.\<close>

definition is_batch_payload :: "json \<Rightarrow> bool" where
  "is_batch_payload payload =
     (case payload of
        JObject props \<Rightarrow>
          (case map_of props ''batch'' of Some (JArray batch) \<Rightarrow> True | _ \<Rightarrow> False)
      | _ \<Rightarrow> False)"

subsection \<open>addStreamingResponseRoute\<close>

text \<open>
  \<^verbatim>\<open>validate: { body: schema.any() }\<close>: the validator of \<^verbatim>\<open>@kbn/config-schema\<close> that accepts
  every value.
\<close>

definition schema_any :: "json \<Rightarrow> bool" where
  "schema_any v = True"

record KibanaRequest =
  body :: json

text \<open>The argument of \<^verbatim>\<open>response.ok\<close>: the headers, in the order of the object literal, and the body.\<close>

record 'b ok_response =
  headers :: "(string \<times> string) list"
  response_body :: 'b

text \<open>
  What becomes of a request posted to the route: the router refuses it when the body fails
  validation, the route handler throws, or it answers with \<^verbatim>\<open>response.ok\<close>.
\<close>

datatype ('err, 'b) route_outcome = bad_request | threw 'err | responded "'b ok_response"

text \<open>
  The route registered by \<^verbatim>\<open>addStreamingResponseRoute\<close> (lines 131 to 152).
  \<^verbatim>\<open>createNDJSONStream\<close> comes from \<^verbatim>\<open>./streaming\<close>, outside the sources covered here, and
  \<^verbatim>\<open>handler\<close> is supplied by the owner of the route; both are parameters and both may
  throw.
\<close>

definition streaming_response_route ::
  "(json \<Rightarrow> 'h \<Rightarrow> 'err + 'b) \<Rightarrow> (KibanaRequest \<Rightarrow> 'err + 'h) \<Rightarrow> KibanaRequest
     \<Rightarrow> ('err, 'b) route_outcome" where
  "streaming_response_route createNDJSONStream handler request =
     (if \<not> schema_any (body request) then bad_request
      else case handler request of
        Inl e \<Rightarrow> threw e
      | Inr handlerInstance \<Rightarrow>
          (let data = body request;
               headers = [(''Content-Type'', ''application/x-ndjson''),
                          (''Connection'', ''keep-alive''),
                          (''Transfer-Encoding'', ''chunked''),
                          (''Cache-Control'', ''no-cache'')]
           in case createNDJSONStream data handlerInstance of
                Inl e \<Rightarrow> threw e
              | Inr stream \<Rightarrow> responded \<lparr>headers = headers, response_body = stream\<rparr>))"

section \<open>Properties of firstNonNullValue\<close>

lemma firstNonNullValue_loop_nulls:
  "firstNonNullValue_loop (replicate n None @ rest) = firstNonNullValue_loop rest"
  by (induction n) simp_all

lemma nulls_then_value:
  "(\<exists>n. vs = replicate n None) \<or> (\<exists>n v rest. vs = replicate n None @ Some v # rest)"
proof (induction vs)
  case Nil
  then show ?case by simp
next
  case (Cons a vs)
  show ?case
  proof (cases a)
    case None
    from Cons show ?thesis
    proof
      assume "\<exists>n. vs = replicate n None"
      then obtain n where "vs = replicate n None" ..
      with None have "a # vs = replicate (Suc n) None" by simp
      then show ?thesis by blast
    next
      assume "\<exists>n v rest. vs = replicate n None @ Some v # rest"
      then obtain n v rest where "vs = replicate n None @ Some v # rest" by blast
      with None have "a # vs = replicate (Suc n) None @ Some v # rest" by simp
      then show ?thesis by blast
    qed
  next
    case (Some v)
    then have "a # vs = replicate 0 None @ Some v # vs" by simp
    then show ?thesis by blast
  qed
qed

text \<open>
  Claim C9. \<open>firstNonNullValue\<close> is a total function. On \<^verbatim>\<open>null\<close> and on \<^verbatim>\<open>undefined\<close> it
  returns \<^verbatim>\<open>undefined\<close>; on an array it returns the first element that is not \<^verbatim>\<open>null\<close>
  (the element after any number of leading \<^verbatim>\<open>null\<close>s), and \<^verbatim>\<open>undefined\<close> when the array
  is empty or holds only \<^verbatim>\<open>null\<close>s; on any other input it returns the input itself.
  Every array has one of the two shapes of the statement (lemma \<open>nulls_then_value\<close>).
\<close>

theorem firstNonNullValue_behaviour:
  "firstNonNullValue (Null :: 't ECSField) = None
   \<and> firstNonNullValue (Undefined :: 't ECSField) = None
   \<and> firstNonNullValue (Collection (replicate n None @ Some (v :: 't) # rest)) = Some v
   \<and> firstNonNullValue (Collection ([] :: 't option list)) = None
   \<and> firstNonNullValue (Collection (replicate m (None :: 't option))) = None
   \<and> firstNonNullValue (Plain (x :: 't)) = Some x"
proof -
  have first: "firstNonNullValue (Collection (replicate n None @ Some v # rest)) = Some v"
    by (simp add: firstNonNullValue_loop_nulls)
  have "firstNonNullValue_loop (replicate m (None :: 't option) @ []) = firstNonNullValue_loop []"
    by (rule firstNonNullValue_loop_nulls)
  then have nulls: "firstNonNullValue (Collection (replicate m (None :: 't option))) = None"
    by simp
  from first nulls show ?thesis by simp
qed

section \<open>Properties of getListHandler\<close>

lemma set_sort_insert: "set (sort_insert compareFn a bs) = insert a (set bs)"
  by (induction bs) auto

lemma set_array_sort: "set (array_sort compareFn xs) = set xs"
  by (induction xs) (simp_all add: array_sort_def set_sort_insert)

lemma getListHandler_ok:
  assumes "getListHandler defaultIngestErrorHandler search installed fetched = response_ok reply"
  shows "\<exists>dataStreamResponses.
           data_streams reply
           = array_sort by_last_activity (filter has_dataset_namespace_type dataStreamResponses)"
  using assms
  by (auto simp: getListHandler_def Let_def split: sum.splits prod.splits)

lemma getListHandler_ok_filtered:
  assumes "getListHandler defaultIngestErrorHandler search installed fetched = response_ok reply"
    and "d \<in> set (data_streams reply)"
  shows "dataset d \<noteq> [] \<and> namespace d \<noteq> [] \<and> type d \<noteq> []"
proof -
  from getListHandler_ok [OF assms(1)] obtain rs where
    "data_streams reply = array_sort by_last_activity (filter has_dataset_namespace_type rs)"
    by blast
  with assms(2) have "has_dataset_namespace_type d" by (simp add: set_array_sort)
  then show ?thesis by (simp add: has_dataset_namespace_type_def truthy_def)
qed

lemma sort_insert_descending:
  assumes "descending bs" and "last_activity_ms a \<noteq> None"
    and "list_all (\<lambda>d. last_activity_ms d \<noteq> None) bs"
  shows "descending (sort_insert by_last_activity a bs)"
  using assms
proof (induction bs)
  case Nil
  then show ?case by (simp add: descending_def)
next
  case (Cons b bs)
  from Cons.prems obtain ta tb where ta: "last_activity_ms a = Some ta"
    and tb: "last_activity_ms b = Some tb" by auto
  show ?case
  proof (cases "sort_compare by_last_activity a b \<le> 0")
    case True
    with ta tb have "tb \<le> ta" by (simp add: sort_compare_def by_last_activity_def)
    with Cons.prems(1) True ta tb show ?thesis
      unfolding descending_def by (fastforce split: option.splits)
  next
    case False
    with ta tb have "ta \<le> tb" by (simp add: sort_compare_def by_last_activity_def)
    moreover from Cons have "descending (sort_insert by_last_activity a bs)"
      by (simp add: descending_def)
    ultimately show ?thesis
      using Cons.prems(1) False ta tb unfolding descending_def
      by (auto simp: set_sort_insert)
  qed
qed

lemma array_sort_descending:
  assumes "list_all (\<lambda>d. last_activity_ms d \<noteq> None) xs"
  shows "descending (array_sort by_last_activity xs)"
  using assms
proof (induction xs)
  case Nil
  then show ?case by (simp add: array_sort_def descending_def)
next
  case (Cons x xs)
  have step: "array_sort by_last_activity (x # xs)
        = sort_insert by_last_activity x (array_sort by_last_activity xs)"
    by (simp add: array_sort_def)
  from Cons.prems have "list_all (\<lambda>d. last_activity_ms d \<noteq> None) (array_sort by_last_activity xs)"
    by (simp add: list_all_iff set_array_sort)
  with Cons show ?case unfolding step by (intro sort_insert_descending) simp_all
qed

lemma getListHandler_ok_sorted_with_stats:
  assumes "getListHandler defaultIngestErrorHandler search installed fetched = response_ok reply"
    and "list_all (\<lambda>d. last_activity_ms d \<noteq> None) (data_streams reply)"
  shows "descending (data_streams reply)"
proof -
  from getListHandler_ok [OF assms(1)] obtain rs where
    rs: "data_streams reply = array_sort by_last_activity (filter has_dataset_namespace_type rs)"
    by blast
  with assms(2) have "list_all (\<lambda>d. last_activity_ms d \<noteq> None)
      (filter has_dataset_namespace_type rs)"
    by (simp add: list_all_iff set_array_sort)
  then show ?thesis unfolding rs by (rule array_sort_descending)
qed

text \<open>
  Claim C10, at a data stream without stats. Elasticsearch lists three data streams, all
  with a dataset, a namespace and a type, and answers with stats for the first (last
  activity 5) and the third (last activity 9) only. The handler answers with
  \<^verbatim>\<open>response.ok\<close>, and the data streams come back in the order of the timestamps 5,
  \<^verbatim>\<open>undefined\<close>, 9: the entry with 5 stands before the entry with 9, so the list is not in
  descending order of \<^verbatim>\<open>last_activity_ms\<close>. The entries of an ok response do all have a
  dataset, a namespace and a type (lemma \<open>getListHandler_ok_filtered\<close>), and the list is
  descending whenever every entry has a timestamp (lemma
  \<open>getListHandler_ok_sorted_with_stats\<close>).
\<close>

theorem stream_without_stats_is_not_sorted:
  "\<exists>reply.
     getListHandler defaultIngestErrorHandler
       (\<lambda>index. Inr (Some ''nginx.access'', Some ''default'', Some ''logs''))
       (\<lambda>pkgName. None)
       (Inr ([\<lparr>name = ''logs-a'', indices = [''.ds-logs-a-000001''], meta_package_name = None\<rparr>,
              \<lparr>name = ''logs-b'', indices = [''.ds-logs-b-000001''], meta_package_name = None\<rparr>,
              \<lparr>name = ''logs-c'', indices = [''.ds-logs-c-000001''], meta_package_name = None\<rparr>],
             [\<lparr>data_stream = ''logs-a'', store_size_bytes = 100, maximum_timestamp = 5\<rparr>,
              \<lparr>data_stream = ''logs-c'', store_size_bytes = 300, maximum_timestamp = 9\<rparr>]))
     = response_ok reply
     \<and> map index (data_streams reply) = [''logs-a'', ''logs-b'', ''logs-c'']
     \<and> map last_activity_ms (data_streams reply) = [Some 5, None, Some 9]"
  by (simp add: getListHandler_def Let_def keyBy_def merge_def keys_def dataStreamPromise_def
      or_empty_def truthy_def has_dataset_namespace_type_def array_sort_def sort_compare_def
      by_last_activity_def)

section \<open>Properties of the batch processing route\<close>

subsection \<open>Runs of the callbacks\<close>

lemma settled_step:
  "batch_item_settled nE s ev =
     \<lparr>subject = (if cnt s = 1 then subject_complete (subject_next (respond nE ev) (subject s))
                 else subject_next (respond nE ev) (subject s)),
      cnt = cnt s - 1\<rparr>"
  by (cases ev; cases "snd ev") (auto simp: respond_def Let_def)

lemma items_settled_Nil [simp]: "items_settled nE s [] = s"
  by (simp add: items_settled_def)

lemma items_settled_Cons [simp]: "items_settled nE s (ev # evs) = items_settled nE (batch_item_settled nE s ev) evs"
  by (simp add: items_settled_def)

lemma items_settled_append: "items_settled nE s (evs @ evs') = items_settled nE (items_settled nE s evs) evs'"
  by (simp add: items_settled_def)

lemma items_settled_counts:
  assumes "\<not> isStopped (subject s)" and "int (length evs) \<le> cnt s"
  shows "emitted (subject (items_settled nE s evs)) = emitted (subject s) @ map (respond nE) evs
       \<and> cnt (items_settled nE s evs) = cnt s - int (length evs)
       \<and> (isStopped (subject (items_settled nE s evs)) \<longleftrightarrow> evs \<noteq> [] \<and> int (length evs) = cnt s)"
  using assms
proof (induction evs arbitrary: s)
  case Nil
  then show ?case by simp
next
  case (Cons ev evs)
  let ?s1 = "batch_item_settled nE s ev"
  have obs1: "emitted (subject ?s1) = emitted (subject s) @ [respond nE ev]"
    using Cons.prems(1) by (simp add: settled_step subject_next_def subject_complete_def)
  have cnt1: "cnt ?s1 = cnt s - 1"
    by (simp add: settled_step)
  have stop1: "isStopped (subject ?s1) \<longleftrightarrow> cnt s = 1"
    using Cons.prems(1) by (simp add: settled_step subject_next_def subject_complete_def)
  show ?case
  proof (cases "cnt s = 1")
    case True
    with Cons.prems(2) have "evs = []" by simp
    with obs1 cnt1 stop1 True show ?thesis by simp
  next
    case False
    with stop1 have "\<not> isStopped (subject ?s1)" by simp
    moreover from Cons.prems(2) cnt1 have "int (length evs) \<le> cnt ?s1" by simp
    ultimately have IH: "emitted (subject (items_settled nE ?s1 evs)) = emitted (subject ?s1) @ map (respond nE) evs
       \<and> cnt (items_settled nE ?s1 evs) = cnt ?s1 - int (length evs)
       \<and> (isStopped (subject (items_settled nE ?s1 evs)) \<longleftrightarrow> evs \<noteq> [] \<and> int (length evs) = cnt ?s1)"
      by (rule Cons.IH)
    show ?thesis
    proof (cases "evs = []")
      case True
      with obs1 cnt1 stop1 False show ?thesis by simp
    next
      case nonempty: False
      with IH obs1 cnt1 show ?thesis by auto
    qed
  qed
qed

lemma completion_order_length:
  assumes "completion_order n evs"
  shows "length evs \<le> n"
proof -
  from assms have d: "distinct (map fst evs)" and b: "set (map fst evs) \<subseteq> {..<n}"
    by (auto simp: completion_order_def list_all_iff)
  from d have "length evs = card (set (map fst evs))"
    by (metis distinct_card length_map)
  also from b have "\<dots> \<le> card {..<n}" by (intro card_mono) simp_all
  finally show ?thesis by simp
qed

lemma item_id_respond [simp]: "item_id (respond nE ev) = fst ev"
  by (cases ev; cases "snd ev") (auto simp: respond_def)

lemma no_throw_no_effect:
  assumes "list_all (returns_promise onBatchItem) (map snd items)"
  shows "foldl (batch_item_called nE onBatchItem) s items = s"
  using assms
proof (induction items arbitrary: s)
  case Nil
  then show ?case by simp
next
  case (Cons item items)
  obtain i batchItem where item: "item = (i, batchItem)" by (cases item)
  from Cons.prems item have "returns_promise onBatchItem batchItem" by simp
  then have "batch_item_called nE onBatchItem s item = s"
    by (simp add: item returns_promise_def split: called.splits)
  with Cons show ?case by simp
qed

lemma snd_enumerate: "map snd (enumerate n xs) = xs"
  by (induction xs arbitrary: n) simp_all

lemma getResponseStream_no_throw:
  assumes "list_all (returns_promise onBatchItem) batch"
  shows "getResponseStream nE onBatchItem batch
         = \<lparr>subject = new_Subject, cnt = int (length batch)\<rparr>"
  unfolding getResponseStream_def
  by (rule no_throw_no_effect) (simp add: snd_enumerate assms)

lemma getResponseStream_fresh:
  assumes "list_all (returns_promise onBatchItem) batch"
  shows "\<not> isStopped (subject (getResponseStream nE onBatchItem batch))"
    and "emitted (subject (getResponseStream nE onBatchItem batch)) = []"
    and "cnt (getResponseStream nE onBatchItem batch) = int (length batch)"
  by (simp_all add: getResponseStream_no_throw [OF assms] new_Subject_def)

lemma getResponseStream_empty:
  "getResponseStream nE onBatchItem [] = \<lparr>subject = new_Subject, cnt = 0\<rparr>"
  by (simp add: getResponseStream_def)


lemma items_settled_getResponseStream:
  assumes "list_all (returns_promise onBatchItem) batch"
    and "completion_order (length batch) evs"
  shows "emitted (subject (items_settled nE (getResponseStream nE onBatchItem batch) evs))
         = map (respond nE) evs"
    and "cnt (items_settled nE (getResponseStream nE onBatchItem batch) evs)
         = int (length batch) - int (length evs)"
    and "isStopped (subject (items_settled nE (getResponseStream nE onBatchItem batch) evs))
         \<longleftrightarrow> evs \<noteq> [] \<and> length evs = length batch"
proof -
  have "int (length evs) \<le> int (length batch)"
    using completion_order_length [OF assms(2)] by simp
  with items_settled_counts [of "getResponseStream nE onBatchItem batch" evs nE]
  show "emitted (subject (items_settled nE (getResponseStream nE onBatchItem batch) evs))
         = map (respond nE) evs"
    and "cnt (items_settled nE (getResponseStream nE onBatchItem batch) evs)
         = int (length batch) - int (length evs)"
    and "isStopped (subject (items_settled nE (getResponseStream nE onBatchItem batch) evs))
         \<longleftrightarrow> evs \<noteq> [] \<and> length evs = length batch"
    by (simp_all add: getResponseStream_fresh [OF assms(1)])
qed

lemma all_completed_ids:
  assumes "all_completed n evs"
  shows "set (map fst evs) = {..<n}"
proof -
  from assms have d: "distinct (map fst evs)" and b: "set (map fst evs) \<subseteq> {..<n}"
    and l: "length evs = n"
    by (auto simp: all_completed_def completion_order_def list_all_iff)
  from d l have "card (set (map fst evs)) = card {..<n}"
    by (metis card_lessThan distinct_card length_map)
  with b show ?thesis by (intro card_subset_eq) simp_all
qed

lemma filter_id_respond:
  assumes "distinct (map fst evs)" and "(i, outcome) \<in> set evs"
  shows "filter (\<lambda>item. item_id item = i) (map (respond nE) evs) = [respond nE (i, outcome)]"
  using assms
proof (induction evs)
  case Nil
  then show ?case by simp
next
  case (Cons ev evs)
  show ?case
  proof (cases "ev = (i, outcome)")
    case True
    with Cons.prems(1) have "\<forall>e \<in> set evs. fst e \<noteq> i" by force
    then have "filter (\<lambda>item. item_id item = i) (map (respond nE) evs) = []"
      by (simp add: filter_empty_conv)
    with True show ?thesis by simp
  next
    case False
    with Cons.prems(2) have mem: "(i, outcome) \<in> set evs" by simp
    then have "i \<in> fst ` set evs" by force
    with Cons.prems(1) have "fst ev \<noteq> i" by auto
    moreover from Cons.prems(1) mem
    have "filter (\<lambda>item. item_id item = i) (map (respond nE) evs) = [respond nE (i, outcome)]"
      by (intro Cons.IH) simp_all
    ultimately show ?thesis by simp
  qed
qed

lemma completion_order_take:
  assumes "completion_order n evs"
  shows "completion_order n (take m evs)"
proof -
  have "set (map fst (take m evs)) \<subseteq> set (map fst evs)"
    unfolding take_map [symmetric] by (rule set_take_subset)
  moreover from assms have "distinct (map fst (take m evs))"
    unfolding take_map [symmetric] by (simp add: completion_order_def)
  ultimately show ?thesis
    using assms unfolding completion_order_def list_all_iff by blast
qed

lemma never_stopped_when_not_positive:
  assumes "\<not> isStopped (subject s)" and "cnt s \<le> 0"
  shows "\<not> isStopped (subject (items_settled nE s evs)) \<and> cnt (items_settled nE s evs) \<le> 0"
  using assms
proof (induction evs arbitrary: s)
  case Nil
  then show ?case by simp
next
  case (Cons ev evs)
  from Cons.prems have "\<not> isStopped (subject (batch_item_settled nE s ev))"
    and "cnt (batch_item_settled nE s ev) \<le> 0"
    by (simp_all add: settled_step subject_next_def)
  then show ?case by (simp add: Cons.IH)
qed

lemma stopped_stays:
  assumes "isStopped (subject s)"
  shows "emitted (subject (items_settled nE s evs)) = emitted (subject s)
       \<and> isStopped (subject (items_settled nE s evs))"
  using assms
proof (induction evs arbitrary: s)
  case Nil
  then show ?case by simp
next
  case (Cons ev evs)
  from Cons.prems have "emitted (subject (batch_item_settled nE s ev)) = emitted (subject s)"
    and "isStopped (subject (batch_item_settled nE s ev))"
    by (simp_all add: settled_step subject_next_def subject_complete_def)
  with Cons.IH [of "batch_item_settled nE s ev"] show ?case by simp
qed

lemma response_stream_invariant:
  assumes "list_all (returns_promise onBatchItem) batch"
    and "completion_order (length batch) evs"
  shows "length (emitted (subject (items_settled nE (getResponseStream nE onBatchItem batch) evs)))
         \<le> length batch"
    and "distinct (map item_id
           (emitted (subject (items_settled nE (getResponseStream nE onBatchItem batch) evs))))"
    and "list_all (\<lambda>item. item_id item < length batch)
           (emitted (subject (items_settled nE (getResponseStream nE onBatchItem batch) evs)))"
    and "batch \<noteq> [] \<Longrightarrow>
         isStopped (subject (items_settled nE (getResponseStream nE onBatchItem batch) evs))
         \<longleftrightarrow> length (emitted (subject
               (items_settled nE (getResponseStream nE onBatchItem batch) evs))) = length batch"
proof -
  note obs = items_settled_getResponseStream(1) [OF assms, of nE]
  have ids: "map item_id (map (respond nE) evs) = map fst evs" by simp
  show "length (emitted (subject (items_settled nE (getResponseStream nE onBatchItem batch) evs)))
         \<le> length batch"
    using completion_order_length [OF assms(2)] by (simp add: obs)
  show "distinct (map item_id
           (emitted (subject (items_settled nE (getResponseStream nE onBatchItem batch) evs))))"
    using assms(2) unfolding obs ids by (simp add: completion_order_def)
  show "list_all (\<lambda>item. item_id item < length batch)
           (emitted (subject (items_settled nE (getResponseStream nE onBatchItem batch) evs)))"
    using assms(2) unfolding obs by (simp add: completion_order_def list_all_iff)
  show "isStopped (subject (items_settled nE (getResponseStream nE onBatchItem batch) evs))
         \<longleftrightarrow> length (emitted (subject
               (items_settled nE (getResponseStream nE onBatchItem batch) evs))) = length batch"
    if "batch \<noteq> []"
    using that items_settled_getResponseStream(3) [OF assms, of nE] by (auto simp: obs)
qed

lemma all_completed_emits_all:
  assumes "list_all (returns_promise onBatchItem) batch"
    and "all_completed (length batch) evs"
  shows "length (emitted (subject (items_settled nE (getResponseStream nE onBatchItem batch) evs)))
         = length batch"
    and "set (map item_id
           (emitted (subject (items_settled nE (getResponseStream nE onBatchItem batch) evs))))
         = {..<length batch}"
    and "batch \<noteq> [] \<Longrightarrow>
         isStopped (subject (items_settled nE (getResponseStream nE onBatchItem batch) evs))"
proof -
  from assms(2) have order: "completion_order (length batch) evs"
    and len: "length evs = length batch"
    by (simp_all add: all_completed_def)
  note obs = items_settled_getResponseStream(1) [OF assms(1) order, of nE]
  have ids: "map item_id (map (respond nE) evs) = map fst evs" by simp
  show "length (emitted (subject (items_settled nE (getResponseStream nE onBatchItem batch) evs)))
         = length batch"
    by (simp add: obs len)
  show "set (map item_id
           (emitted (subject (items_settled nE (getResponseStream nE onBatchItem batch) evs))))
         = {..<length batch}"
    unfolding obs ids by (rule all_completed_ids [OF assms(2)])
  show "isStopped (subject (items_settled nE (getResponseStream nE onBatchItem batch) evs))"
    if "batch \<noteq> []"
    using that len items_settled_getResponseStream(3) [OF assms(1) order, of nE] by auto
qed

lemma rejected_promise_is_isolated:
  assumes "list_all (returns_promise onBatchItem) batch"
    and "all_completed (length batch) evs"
    and "(k, rejected err) \<in> set evs"
    and "\<forall>(i, outcome) \<in> set evs. i \<noteq> k \<longrightarrow> (\<exists>r. outcome = fulfilled r)"
  shows "filter (\<lambda>item. item_id item = k)
           (emitted (subject (items_settled nE (getResponseStream nE onBatchItem batch) evs)))
         = [ErrorItem k (nE err)]
       \<and> (\<forall>i < length batch. i \<noteq> k \<longrightarrow>
            (\<exists>r. (i, fulfilled r) \<in> set evs
               \<and> filter (\<lambda>item. item_id item = i)
                    (emitted (subject
                       (items_settled nE (getResponseStream nE onBatchItem batch) evs)))
                  = [ResultItem i r]))
       \<and> length (emitted (subject (items_settled nE (getResponseStream nE onBatchItem batch) evs)))
         = length batch
       \<and> isStopped (subject (items_settled nE (getResponseStream nE onBatchItem batch) evs))
       \<and> (\<forall>m < length batch.
            \<not> isStopped (subject
                 (items_settled nE (getResponseStream nE onBatchItem batch) (take m evs))))"
proof -
  from assms(2) have order: "completion_order (length batch) evs"
    and len: "length evs = length batch"
    by (simp_all add: all_completed_def)
  from order have dist: "distinct (map fst evs)" by (simp add: completion_order_def)
  note obs = items_settled_getResponseStream(1) [OF assms(1) order, of nE]
  from assms(3) have "batch \<noteq> []" using len by auto
  have failed: "filter (\<lambda>item. item_id item = k) (map (respond nE) evs)
      = [ErrorItem k (nE err)]"
    using filter_id_respond [OF dist assms(3), of nE] by (simp add: respond_def)
  have others: "\<exists>r. (i, fulfilled r) \<in> set evs
      \<and> filter (\<lambda>item. item_id item = i) (map (respond nE) evs) = [ResultItem i r]"
    if "i < length batch" and "i \<noteq> k" for i
  proof -
    from that(1) all_completed_ids [OF assms(2)] have "i \<in> set (map fst evs)" by simp
    then obtain outcome where mem: "(i, outcome) \<in> set evs" by auto
    with assms(4) that(2) obtain r where "outcome = fulfilled r" by blast
    with mem filter_id_respond [OF dist mem, of nE] show ?thesis
      by (auto simp: respond_def)
  qed
  have closed: "isStopped (subject (items_settled nE (getResponseStream nE onBatchItem batch) evs))"
    using items_settled_getResponseStream(3) [OF assms(1) order, of nE] len \<open>batch \<noteq> []\<close>
    by auto
  have "\<not> isStopped (subject
           (items_settled nE (getResponseStream nE onBatchItem batch) (take m evs)))"
    if "m < length batch" for m
    using that len
      items_settled_getResponseStream(3) [OF assms(1) completion_order_take [OF order], of nE m]
    by simp
  with failed others closed len show ?thesis by (simp add: obs)
qed

lemma settled_order_is_emission_order:
  assumes "list_all (returns_promise onBatchItem) batch"
    and "completion_order (length batch) evs"
    and "p < q" and "q < length evs"
    and "evs ! p = (j, outcome_j)" and "evs ! q = (i, outcome_i)"
  shows "map item_id
           (emitted (subject (items_settled nE (getResponseStream nE onBatchItem batch) evs)))
         = map fst evs
       \<and> emitted (subject (items_settled nE (getResponseStream nE onBatchItem batch) evs)) ! p
         = respond nE (j, outcome_j)
       \<and> emitted (subject (items_settled nE (getResponseStream nE onBatchItem batch) evs)) ! q
         = respond nE (i, outcome_i)"
proof -
  note obs = items_settled_getResponseStream(1) [OF assms(1,2), of nE]
  from assms(3,4) have p: "p < length evs" by simp
  with assms(4,5,6) show ?thesis by (simp add: obs)
qed

subsection \<open>The empty batch\<close>

text \<open>
  Claim C1, at the empty batch. For a batch of \<open>N = 0\<close> items the stream returned by
  \<open>getResponseStream\<close> has emitted \<open>N\<close> response items, all there will ever be, and yet it
  is not completed: "closed if and only if \<open>N\<close> items have been emitted" fails there. For
  every batch of at least one item whose handler calls all return, the invariant of the
  claim holds (lemmas \<open>response_stream_invariant\<close> and \<open>all_completed_emits_all\<close>).
\<close>

theorem empty_batch_all_emitted_but_open:
  "length (emitted (subject (getResponseStream normalizeError onBatchItem ([] :: 'd list))))
     = length ([] :: 'd list)
   \<and> \<not> isStopped (subject (getResponseStream normalizeError onBatchItem ([] :: 'd list)))"
  by (simp add: getResponseStream_empty new_Subject_def)

text \<open>
  Claim C2, the empty batch. \<open>getResponseStream\<close> applied to the empty batch returns a
  stream that has emitted nothing, with \<open>cnt = 0\<close>, and that is not completed; and whatever
  events might follow, it is never completed, since \<open>cnt\<close> is only compared with zero
  after a decrement.
\<close>

theorem empty_batch_never_completes:
  "emitted (subject (getResponseStream normalizeError onBatchItem [])) = []
   \<and> cnt (getResponseStream normalizeError onBatchItem []) = 0
   \<and> \<not> isStopped (subject (items_settled normalizeError
                       (getResponseStream normalizeError onBatchItem []) evs))"
  using never_stopped_when_not_positive
    [of "getResponseStream normalizeError onBatchItem []" normalizeError evs]
  by (simp add: getResponseStream_empty new_Subject_def)

subsection \<open>A handler that throws before it returns\<close>

lemma bad_alone:
  "getResponseStream nE throws_on_bad [''bad'']
   = \<lparr>subject = \<lparr>emitted = [ErrorItem 0 (nE ''boom'')], isStopped = True\<rparr>, cnt = 0\<rparr>"
  by (simp add: getResponseStream_def throws_on_bad_def Let_def new_Subject_def
      subject_next_def subject_complete_def)

lemma bad_then_ok:
  "getResponseStream nE throws_on_bad [''bad'', ''ok'']
   = \<lparr>subject = \<lparr>emitted = [ErrorItem 0 (nE ''boom'')], isStopped = False\<rparr>, cnt = 1\<rparr>"
  by (simp add: getResponseStream_def throws_on_bad_def Let_def new_Subject_def
      subject_next_def subject_complete_def)

lemma slow_then_bad:
  "getResponseStream nE throws_on_bad [''slow'', ''bad'']
   = \<lparr>subject = \<lparr>emitted = [ErrorItem 1 (nE ''boom'')], isStopped = False\<rparr>, cnt = 1\<rparr>"
  by (simp add: getResponseStream_def throws_on_bad_def Let_def new_Subject_def
      subject_next_def subject_complete_def)

text \<open>
  Claim C3, at a handler that throws before it returns. For the batch \<^verbatim>\<open>['bad']\<close> the error
  item is pushed and the subject completed inside \<^verbatim>\<open>forEach\<close>: the subject is already
  stopped when it is returned, and an observer receives no item at all, whatever follows.
  For the batch \<^verbatim>\<open>['bad', 'ok']\<close> the error item of item 0 is pushed before the return;
  once item 1 has settled the stream is completed, and an observer has received the result
  item of item 1 and no item with id 0. When the failure of item \<open>k\<close> is the rejection of
  its promise and every call returns, the claim holds (lemma \<open>rejected_promise_is_isolated\<close>).
\<close>

theorem synchronous_failure_record_is_lost:
  "isStopped (subject (getResponseStream normalizeError throws_on_bad [''bad'']))
   \<and> received (getResponseStream normalizeError throws_on_bad [''bad''])
        (items_settled normalizeError
           (getResponseStream normalizeError throws_on_bad [''bad'']) evs)
      = []
   \<and> emitted (subject (getResponseStream normalizeError throws_on_bad [''bad'', ''ok'']))
      = [ErrorItem 0 (normalizeError ''boom'')]
   \<and> received (getResponseStream normalizeError throws_on_bad [''bad'', ''ok''])
        (items_settled normalizeError
           (getResponseStream normalizeError throws_on_bad [''bad'', ''ok''])
           [(1, fulfilled ''ok'')])
      = [ResultItem 1 ''ok'']
   \<and> isStopped (subject (items_settled normalizeError
        (getResponseStream normalizeError throws_on_bad [''bad'', ''ok''])
        [(1, fulfilled ''ok'')]))"
proof -
  have "isStopped (subject (getResponseStream normalizeError throws_on_bad [''bad'']))"
    by (simp add: bad_alone)
  from this stopped_stays [OF this, of normalizeError evs]
  have one: "isStopped (subject (getResponseStream normalizeError throws_on_bad [''bad'']))
      \<and> received (getResponseStream normalizeError throws_on_bad [''bad''])
           (items_settled normalizeError
              (getResponseStream normalizeError throws_on_bad [''bad'']) evs) = []"
    by (simp add: received_def)
  have two: "emitted (subject (getResponseStream normalizeError throws_on_bad [''bad'', ''ok'']))
        = [ErrorItem 0 (normalizeError ''boom'')]
      \<and> received (getResponseStream normalizeError throws_on_bad [''bad'', ''ok''])
           (items_settled normalizeError
              (getResponseStream normalizeError throws_on_bad [''bad'', ''ok''])
              [(1, fulfilled ''ok'')])
         = [ResultItem 1 ''ok'']
      \<and> isStopped (subject (items_settled normalizeError
           (getResponseStream normalizeError throws_on_bad [''bad'', ''ok''])
           [(1, fulfilled ''ok'')]))"
    by (simp add: bad_then_ok received_def Let_def subject_next_def subject_complete_def)
  from one two show ?thesis by simp
qed

text \<open>
  Claim C4, at a handler that throws before it returns. In the batch \<^verbatim>\<open>['slow', 'bad']\<close>
  the execution of item 1 completes first, inside \<^verbatim>\<open>forEach\<close>, and its error item is pushed
  before the subject is returned; item 0 settles later. An observer receives the result
  item of item 0 only: the item of the execution that completed first is not emitted
  before it, it is not received at all. When every call returns, the items are emitted in
  the order in which the promises settle (lemma \<open>settled_order_is_emission_order\<close>).
\<close>

theorem synchronous_failure_is_not_emitted_first:
  "emitted (subject (getResponseStream normalizeError throws_on_bad [''slow'', ''bad'']))
     = [ErrorItem 1 (normalizeError ''boom'')]
   \<and> received (getResponseStream normalizeError throws_on_bad [''slow'', ''bad''])
        (items_settled normalizeError
           (getResponseStream normalizeError throws_on_bad [''slow'', ''bad''])
           [(0, fulfilled ''slow'')])
      = [ResultItem 0 ''slow'']"
  by (simp add: slow_then_bad received_def Let_def subject_next_def subject_complete_def)

subsection \<open>The division scenario\<close>





subsection \<open>The route\<close>

text \<open>
  Claim C5 as stated fails: the body \<^verbatim>\<open>{}\<close> has no batch, passes the validation of the
  route, and the route does not refuse it, whatever \<^verbatim>\<open>createNDJSONStream\<close> and the handler
  do.
\<close>

theorem malformed_batch_passes_validation:
  "\<not> is_batch_payload (JObject []) \<and> schema_any (JObject [])
   \<and> (\<forall>createNDJSONStream handler.
        streaming_response_route createNDJSONStream handler \<lparr>body = JObject []\<rparr> \<noteq> bad_request)"
  by (simp add: is_batch_payload_def schema_any_def streaming_response_route_def
      split: sum.splits)

text \<open>
  Claim C5, amended. A payload whose batch is missing or is not an array passes the
  validation of the route, which accepts every body, and is not refused at the boundary;
  \<open>getResponseStream\<close> itself throws a \<^verbatim>\<open>TypeError\<close> on it, before \<^verbatim>\<open>onBatchItem\<close> is called
  for any item and without a stream on which an item could be emitted.
\<close>

theorem malformed_batch_throws_before_any_item:
  assumes "\<not> is_batch_payload payload"
  shows "schema_any payload
       \<and> getResponseStream_js normalizeError onBatchItem payload = ([], Inl TypeError)
       \<and> streaming_response_route createNDJSONStream handler \<lparr>body = payload\<rparr> \<noteq> bad_request"
  using assms
  by (auto simp: is_batch_payload_def schema_any_def getResponseStream_js_def
      streaming_response_route_def split: json.splits option.splits sum.splits)

theorem malformed_batch_throws_before_any_item_witness:
  "\<not> is_batch_payload (JObject [(''batch'', JString ''abc'')])
   \<and> schema_any (JObject [(''batch'', JString ''abc'')])
   \<and> getResponseStream_js (\<lambda>err :: string. err)
        (\<lambda>item. promise (fulfilled item) :: (json, string) called)
        (JObject [(''batch'', JString ''abc'')])
      = ([], Inl TypeError)"
proof -
  have h: "\<not> is_batch_payload (JObject [(''batch'', JString ''abc'')])"
    by (simp add: is_batch_payload_def)
  have "schema_any (JObject [(''batch'', JString ''abc'')])
      \<and> getResponseStream_js (\<lambda>err :: string. err)
           (\<lambda>item. promise (fulfilled item) :: (json, string) called)
           (JObject [(''batch'', JString ''abc'')])
         = ([], Inl TypeError)
      \<and> streaming_response_route (\<lambda>data handlerInstance. Inr data) (\<lambda>request. Inr ())
           \<lparr>body = JObject [(''batch'', JString ''abc'')]\<rparr>
         \<noteq> (bad_request :: (unit, json) route_outcome)"
    by (rule malformed_batch_throws_before_any_item [OF h])
  with h show ?thesis by simp
qed



end
